theory Spec2Isabelle
  imports Complex_Main "HOL-Library.AList" "HOL-Library.Multiset"
begin

section \<open>JavaScript values as the scheduler reads them\<close>

text \<open>
  The scheduler of \<^verbatim>\<open>src/App.js\<close> (\<^verbatim>\<open>scheduleData\<close> and \<^verbatim>\<open>aggregatedOverflow\<close> in
  \<^verbatim>\<open>ScheduleView\<close>) computes on JavaScript numbers and on the raw fields of the stored
  catalog, which are strings typed into the item form or whatever the stored JSON holds.

  Numbers are modelled as exact rationals extended with \<open>NaN\<close>, \<open>+Infinity\<close> and
  \<open>-Infinity\<close>: the comparisons and the arithmetic treat the three special values as
  IEEE 754 does, and finite values are computed without rounding, overflow or a signed
  zero. The model therefore agrees with the program wherever the double arithmetic of the
  program is exact.
\<close>

datatype jsnum = NaN | NInf | Fin rat | PInf

fun jneg :: "jsnum \<Rightarrow> jsnum" where
  "jneg NaN = NaN"
| "jneg NInf = PInf"
| "jneg PInf = NInf"
| "jneg (Fin a) = Fin (- a)"

fun jadd :: "jsnum \<Rightarrow> jsnum \<Rightarrow> jsnum" where
  "jadd NaN _ = NaN"
| "jadd _ NaN = NaN"
| "jadd PInf NInf = NaN"
| "jadd NInf PInf = NaN"
| "jadd PInf _ = PInf"
| "jadd _ PInf = PInf"
| "jadd NInf _ = NInf"
| "jadd _ NInf = NInf"
| "jadd (Fin a) (Fin b) = Fin (a + b)"

definition jsub :: "jsnum \<Rightarrow> jsnum \<Rightarrow> jsnum" where
  "jsub a b = jadd a (jneg b)"

fun jmul :: "jsnum \<Rightarrow> jsnum \<Rightarrow> jsnum" where
  "jmul NaN _ = NaN"
| "jmul _ NaN = NaN"
| "jmul (Fin a) (Fin b) = Fin (a * b)"
| "jmul (Fin a) PInf = (if a = 0 then NaN else if 0 < a then PInf else NInf)"
| "jmul (Fin a) NInf = (if a = 0 then NaN else if 0 < a then NInf else PInf)"
| "jmul PInf (Fin b) = (if b = 0 then NaN else if 0 < b then PInf else NInf)"
| "jmul NInf (Fin b) = (if b = 0 then NaN else if 0 < b then NInf else PInf)"
| "jmul PInf PInf = PInf"
| "jmul NInf NInf = PInf"
| "jmul PInf NInf = NInf"
| "jmul NInf PInf = NInf"

text \<open>Division; a zero divisor is read as \<open>+0\<close>.\<close>

fun jdiv :: "jsnum \<Rightarrow> jsnum \<Rightarrow> jsnum" where
  "jdiv NaN _ = NaN"
| "jdiv _ NaN = NaN"
| "jdiv (Fin a) (Fin b) =
     (if b = 0 then (if a = 0 then NaN else if 0 < a then PInf else NInf) else Fin (a / b))"
| "jdiv (Fin a) PInf = Fin 0"
| "jdiv (Fin a) NInf = Fin 0"
| "jdiv PInf (Fin b) = (if 0 \<le> b then PInf else NInf)"
| "jdiv NInf (Fin b) = (if 0 \<le> b then NInf else PInf)"
| "jdiv _ _ = NaN"

text \<open>\<^verbatim>\<open>a < b\<close> and \<^verbatim>\<open>a <= b\<close> on numbers: false as soon as one side is \<open>NaN\<close>.\<close>

fun jlt :: "jsnum \<Rightarrow> jsnum \<Rightarrow> bool" where
  "jlt NaN _ = False"
| "jlt _ NaN = False"
| "jlt _ NInf = False"
| "jlt NInf _ = True"
| "jlt PInf _ = False"
| "jlt _ PInf = True"
| "jlt (Fin a) (Fin b) = (a < b)"

fun jle :: "jsnum \<Rightarrow> jsnum \<Rightarrow> bool" where
  "jle NaN _ = False"
| "jle _ NaN = False"
| "jle NInf _ = True"
| "jle _ PInf = True"
| "jle _ NInf = False"
| "jle PInf _ = False"
| "jle (Fin a) (Fin b) = (a \<le> b)"

text \<open>
  Addition with \<open>0\<close> is a commutative monoid on these numbers, which gives the sum of a
  multiset of profits a meaning that does not depend on any order of traversal.
\<close>

instantiation jsnum :: comm_monoid_add
begin

definition zero_jsnum :: jsnum where
  "zero_jsnum = Fin 0"

definition plus_jsnum :: "jsnum \<Rightarrow> jsnum \<Rightarrow> jsnum" where
  "plus_jsnum = jadd"

instance
proof
  fix a b c :: jsnum
  show "a + b + c = a + (b + c)"
    unfolding plus_jsnum_def by (cases a; cases b; cases c) simp_all
  show "a + b = b + a"
    unfolding plus_jsnum_def by (cases a; cases b) simp_all
  show "0 + a = a"
    unfolding plus_jsnum_def zero_jsnum_def by (cases a) simp_all
qed

end

text \<open>
  A raw field of a stored record. The form stores what the user typed (a string); stored
  JSON can also hold a number, a boolean, \<^verbatim>\<open>null\<close> or leave the field out.
\<close>

datatype jsval = JUndefined | JNull | JBool bool | JNum jsnum | JStr string

text \<open>Truthiness, as \<^verbatim>\<open>!x\<close> and \<^verbatim>\<open>x || d\<close> read it.\<close>

fun truthy :: "jsval \<Rightarrow> bool" where
  "truthy JUndefined = False"
| "truthy JNull = False"
| "truthy (JBool b) = b"
| "truthy (JNum n) = (n \<noteq> NaN \<and> n \<noteq> Fin 0)"
| "truthy (JStr s) = (s \<noteq> [])"

subsection \<open>Reading a number out of a string\<close>

text \<open>
  \<^verbatim>\<open>parseFloat\<close> reads the longest prefix that is a decimal literal (ECMAScript
  \<open>StrDecimalLiteral\<close>) after leading white space; the numeric coercion \<open>ToNumber\<close>, which
  \<^verbatim>\<open><=\<close> and \<^verbatim>\<open>*\<close> apply to a string, wants the whole trimmed string to be a numeric
  literal and reads the empty string as \<open>0\<close>. Strings are byte strings here, so white
  space is the ASCII white space.
\<close>

definition is_digit :: "char \<Rightarrow> bool" where
  "is_digit c \<longleftrightarrow> 48 \<le> (of_char c :: nat) \<and> (of_char c :: nat) \<le> 57"

definition digit_val :: "char \<Rightarrow> nat" where
  "digit_val c = of_char c - 48"

definition digits_val :: "string \<Rightarrow> nat" where
  "digits_val ds = foldl (\<lambda>n c. 10 * n + digit_val c) 0 ds"

definition is_ws :: "char \<Rightarrow> bool" where
  "is_ws c \<longleftrightarrow> (of_char c :: nat) \<in> {9, 10, 11, 12, 13, 32}"

definition trim :: "string \<Rightarrow> string" where
  "trim s = rev (dropWhile is_ws (rev (dropWhile is_ws s)))"

definition scale10 :: "rat \<Rightarrow> int \<Rightarrow> rat" where
  "scale10 m e = (if 0 \<le> e then m * 10 ^ nat e else m / 10 ^ nat (- e))"

text \<open>The optional exponent part: its value and the text after it.\<close>

definition exponent_part :: "string \<Rightarrow> int \<times> string" where
  "exponent_part s =
     (case s of
        [] \<Rightarrow> (0, s)
      | c # t \<Rightarrow>
          if c = CHR ''e'' \<or> c = CHR ''E'' then
            (let (sg, u) =
               (case t of
                  [] \<Rightarrow> (1, t)
                | d # v \<Rightarrow>
                    if d = CHR ''+'' then (1, v)
                    else if d = CHR ''-'' then (- 1, v)
                    else (1, t));
                 ds = takeWhile is_digit u
             in if ds = [] then (0, s) else (sg * int (digits_val ds), dropWhile is_digit u))
          else (0, s))"

text \<open>The optional fraction: its digits and the text after it.\<close>

definition fraction_part :: "string \<Rightarrow> string \<times> string" where
  "fraction_part s =
     (case s of
        [] \<Rightarrow> ([], s)
      | c # t \<Rightarrow>
          if c = CHR ''.'' then (takeWhile is_digit t, dropWhile is_digit t) else ([], s))"

definition unsigned_decimal :: "string \<Rightarrow> (jsnum \<times> string) option" where
  "unsigned_decimal s =
     (if take 8 s = ''Infinity'' then Some (PInf, drop 8 s)
      else
        (let ip = takeWhile is_digit s;
             (fp, r) = fraction_part (dropWhile is_digit s)
         in if ip = [] \<and> fp = [] then None
            else
              (let (e, r') = exponent_part r
               in Some (Fin (scale10 (of_nat (digits_val (ip @ fp)) / 10 ^ length fp) e), r'))))"

definition signed_decimal :: "string \<Rightarrow> (jsnum \<times> string) option" where
  "signed_decimal s =
     (case s of
        [] \<Rightarrow> None
      | c # t \<Rightarrow>
          if c = CHR ''+'' then unsigned_decimal t
          else if c = CHR ''-'' then map_option (\<lambda>(v, r). (jneg v, r)) (unsigned_decimal t)
          else unsigned_decimal s)"

text \<open>Hexadecimal, octal and binary integer literals, which only \<open>ToNumber\<close> reads.\<close>

definition radix_digit :: "char \<Rightarrow> nat option" where
  "radix_digit c =
     (let n = (of_char c :: nat)
      in if 48 \<le> n \<and> n \<le> 57 then Some (n - 48)
         else if 97 \<le> n \<and> n \<le> 102 then Some (n - 87)
         else if 65 \<le> n \<and> n \<le> 70 then Some (n - 55)
         else None)"

fun radix_val :: "nat \<Rightarrow> nat \<Rightarrow> string \<Rightarrow> nat option" where
  "radix_val b acc [] = Some acc"
| "radix_val b acc (c # cs) =
     (case radix_digit c of
        None \<Rightarrow> None
      | Some d \<Rightarrow> if d < b then radix_val b (b * acc + d) cs else None)"

definition non_decimal :: "string \<Rightarrow> nat option" where
  "non_decimal s =
     (case s of
        z # x # d # ds \<Rightarrow>
          if z \<noteq> CHR ''0'' then None
          else if x = CHR ''x'' \<or> x = CHR ''X'' then radix_val 16 0 (d # ds)
          else if x = CHR ''o'' \<or> x = CHR ''O'' then radix_val 8 0 (d # ds)
          else if x = CHR ''b'' \<or> x = CHR ''B'' then radix_val 2 0 (d # ds)
          else None
      | _ \<Rightarrow> None)"

definition string_to_number :: "string \<Rightarrow> jsnum" where
  "string_to_number s =
     (let t = trim s
      in if t = [] then Fin 0
         else
           (case signed_decimal t of
              Some (v, []) \<Rightarrow> v
            | _ \<Rightarrow> (case non_decimal t of Some n \<Rightarrow> Fin (of_nat n) | None \<Rightarrow> NaN)))"

fun ToNumber :: "jsval \<Rightarrow> jsnum" where
  "ToNumber JUndefined = NaN"
| "ToNumber JNull = Fin 0"
| "ToNumber (JBool b) = (if b then Fin 1 else Fin 0)"
| "ToNumber (JNum n) = n"
| "ToNumber (JStr s) = string_to_number s"

text \<open>
  \<^verbatim>\<open>parseFloat(x)\<close> converts \<open>x\<close> to a string first: a number prints and reads back as
  itself, and \<^verbatim>\<open>"undefined"\<close>, \<^verbatim>\<open>"null"\<close>, \<^verbatim>\<open>"true"\<close> and \<^verbatim>\<open>"false"\<close> do not parse.
\<close>

fun parseFloat :: "jsval \<Rightarrow> jsnum" where
  "parseFloat (JNum n) = n"
| "parseFloat (JStr s) =
     (case signed_decimal (dropWhile is_ws s) of None \<Rightarrow> NaN | Some (v, _) \<Rightarrow> v)"
| "parseFloat _ = NaN"

text \<open>\<^verbatim>\<open>n || 0\<close> on a number.\<close>

definition or_zero :: "jsnum \<Rightarrow> jsnum" where
  "or_zero n = (if n = NaN \<or> n = Fin 0 then Fin 0 else n)"

text \<open>The decimal text of an array index, as a template literal prints it.\<close>

function dec :: "nat \<Rightarrow> string" where
  "dec n = (if n < 10 then [char_of (48 + n)] else dec (n div 10) @ [char_of (48 + n mod 10)])"
  by pat_completeness auto
termination
  by (relation "measure (\<lambda>n. n)") auto

declare dec.simps [simp del]

section \<open>The data model\<close>

text \<open>
  Stored records carry the fields the scheduler reads. The numeric fields of a catalog
  item are raw values; \<open>allowedMachines\<close> may be missing. An order's quantity is the
  positive integer that \<^verbatim>\<open>handleAddOrder\<close> stores (\<^verbatim>\<open>parseInt\<close> of a positive input), a
  natural number here.
\<close>

record item =
  item_id :: string
  item_name :: string
  item_buildTime :: jsval
  item_price :: jsval
  item_cost :: jsval
  item_allowedMachines :: "string list option"

record machine =
  machine_id :: string
  machine_name :: string

record order =
  order_id :: string
  itemId :: string
  itemName :: string
  quantity :: nat

record settings =
  workHours :: jsval
  workdayStartHour :: jsval

text \<open>One unit of production, as the expander builds it.\<close>

record task =
  task_id :: string
  name :: string
  buildTime :: jsnum
  profit :: jsnum
  profitPerMinute :: jsnum
  allowedMachines :: "string list"

text \<open>
  An assigned task is the object \<^verbatim>\<open>{ ...task, startTime, endTime }\<close>: the task's fields and
  two more.
\<close>

record scheduledTask = task +
  startTime :: jsnum
  endTime :: jsnum

definition spread :: "task \<Rightarrow> jsnum \<Rightarrow> jsnum \<Rightarrow> scheduledTask" where
  "spread t s e = task.extend t (scheduledTask.fields s e)"

record timeline =
  tasks :: "scheduledTask list"
  currentTime :: jsnum

text \<open>
  \<^verbatim>\<open>machineTimelines\<close> is an object keyed by machine name. It is modelled as an association
  list in insertion order with one entry per key: \<open>map_of\<close> reads a key and
  \<open>AList.update\<close> writes it, in place when the key exists and at the end otherwise. (The
  inherited properties of a JavaScript object are left out: a name such as
  \<^verbatim>\<open>constructor\<close> that is no machine reads as a function, whose \<^verbatim>\<open>currentTime\<close> is
  undefined, so that its finish time is \<open>NaN\<close> and the scan below never selects it. The
  order in which JavaScript enumerates the keys, which puts integer-like names first,
  plays no part in the allocation.)
\<close>

type_synonym machineTimelines = "(string \<times> timeline) list"

record scheduleResult =
  schedule :: machineTimelines
  totalProfit :: jsnum
  overflowTasks :: "task list"

record overflowReport =
  overflow_items :: "(string \<times> nat) list"
  overflow_totalProfit :: jsnum

section \<open>The scheduler\<close>

subsection \<open>Task expander\<close>

text \<open>The callback of \<^verbatim>\<open>scheduleOrders.flatMap\<close>: the tasks of one order.\<close>

definition expand_order :: "item list \<Rightarrow> order \<Rightarrow> task list" where
  "expand_order items ord =
     (case find (\<lambda>i. item_id i = itemId ord) items of
        None \<Rightarrow> []
      | Some itemDetails \<Rightarrow>
          if \<not> truthy (item_buildTime itemDetails)
             \<or> jle (ToNumber (item_buildTime itemDetails)) (Fin 0)
          then []
          else
            (let p = jsub (or_zero (parseFloat (item_price itemDetails)))
                          (or_zero (parseFloat (item_cost itemDetails)));
                 ppm = jdiv p (parseFloat (item_buildTime itemDetails))
             in map (\<lambda>i.
                    \<lparr> task_id = itemId ord @ ''-'' @ dec i,
                      name = itemName ord,
                      buildTime = parseFloat (item_buildTime itemDetails),
                      profit = p,
                      profitPerMinute = ppm,
                      allowedMachines =
                        (case item_allowedMachines itemDetails of None \<Rightarrow> [] | Some ms \<Rightarrow> ms) \<rparr>)
                  [0 ..< quantity ord]))"

definition allTasks :: "order list \<Rightarrow> item list \<Rightarrow> task list" where
  "allTasks scheduleOrders items = concat (map (expand_order items) scheduleOrders)"

subsection \<open>Profit ranker\<close>

text \<open>
  \<^verbatim>\<open>allTasks.sort((a, b) => b.profitPerMinute - a.profitPerMinute)\<close>. The comparator's
  value \<open>v\<close> puts \<open>b\<close> before \<open>a\<close> when \<open>v > 0\<close>, and a \<open>NaN\<close> counts as \<open>0\<close>.
  \<^verbatim>\<open>Array.prototype.sort\<close> is a stable sort (ECMAScript 2019); it is modelled as the stable
  insertion sort by this comparator, which is the result of every stable sort whenever
  the comparator is a consistent ordering.
\<close>

definition comparator :: "task \<Rightarrow> task \<Rightarrow> jsnum" where
  "comparator a b = jsub (profitPerMinute b) (profitPerMinute a)"

fun insert_task :: "task \<Rightarrow> task list \<Rightarrow> task list" where
  "insert_task a [] = [a]"
| "insert_task a (b # bs) =
     (if jlt (Fin 0) (comparator a b) then b # insert_task a bs else a # b # bs)"

definition sort_tasks :: "task list \<Rightarrow> task list" where
  "sort_tasks ts = foldr insert_task ts []"

subsection \<open>Greedy allocator\<close>

text \<open>\<^verbatim>\<open>machines.reduce((acc, machine) => { acc[machine.name] = {...}; return acc; }, {})\<close>\<close>

definition init_timelines :: "machine list \<Rightarrow> machineTimelines" where
  "init_timelines machines =
     foldl (\<lambda>acc m. AList.update (machine_name m) \<lparr> tasks = [], currentTime = Fin 0 \<rparr> acc)
       [] machines"

text \<open>\<^verbatim>\<open>(settings.workHours || 8) * 60\<close>\<close>

definition totalWorkMinutes :: "settings \<Rightarrow> jsnum" where
  "totalWorkMinutes st =
     jmul (ToNumber (if truthy (workHours st) then workHours st else JNum (Fin 8))) (Fin 60)"

text \<open>
  The scan of \<^verbatim>\<open>task.allowedMachines\<close>, carrying \<^verbatim>\<open>bestMachine\<close> (\<open>None\<close> is \<^verbatim>\<open>null\<close>) and
  \<^verbatim>\<open>earliestFinishTime\<close>.
\<close>

fun scan_machines ::
  "machineTimelines \<Rightarrow> task \<Rightarrow> string list \<Rightarrow> string option \<times> jsnum \<Rightarrow> string option \<times> jsnum"
where
  "scan_machines mts t [] acc = acc"
| "scan_machines mts t (machineName # rest) (bestMachine, earliestFinishTime) =
     (case map_of mts machineName of
        None \<Rightarrow> scan_machines mts t rest (bestMachine, earliestFinishTime)
      | Some m \<Rightarrow>
          (let finishTime = jadd (currentTime m) (buildTime t)
           in if jlt finishTime earliestFinishTime
              then scan_machines mts t rest (Some machineName, finishTime)
              else scan_machines mts t rest (bestMachine, earliestFinishTime)))"

definition best_machine :: "machineTimelines \<Rightarrow> task \<Rightarrow> string option \<times> jsnum" where
  "best_machine mts t = scan_machines mts t (allowedMachines t) (None, PInf)"

text \<open>
  The body of the loop over the ranked tasks. \<^verbatim>\<open>bestMachine && ...\<close> is false for
  \<^verbatim>\<open>null\<close> and for the empty name. The scan only returns names it found in
  \<^verbatim>\<open>machineTimelines\<close>, so the lookup of the chosen name never fails; the model leaves the
  state as it is there.
\<close>

definition allocate_task :: "jsnum \<Rightarrow> scheduleResult \<Rightarrow> task \<Rightarrow> scheduleResult" where
  "allocate_task budget st t =
     (case best_machine (schedule st) t of
        (bestMachine, earliestFinishTime) \<Rightarrow>
          (case bestMachine of
             None \<Rightarrow> st \<lparr> overflowTasks := overflowTasks st @ [t] \<rparr>
           | Some b \<Rightarrow>
               if b \<noteq> [] \<and> jle earliestFinishTime budget then
                 (case map_of (schedule st) b of
                    None \<Rightarrow> st
                  | Some m \<Rightarrow>
                      st \<lparr> schedule :=
                             AList.update b
                               \<lparr> tasks = tasks m @ [spread t (currentTime m) earliestFinishTime],
                                 currentTime = earliestFinishTime \<rparr>
                               (schedule st),
                           totalProfit := jadd (totalProfit st) (profit t) \<rparr>)
               else st \<lparr> overflowTasks := overflowTasks st @ [t] \<rparr>))"

definition allocate :: "jsnum \<Rightarrow> machineTimelines \<Rightarrow> task list \<Rightarrow> scheduleResult" where
  "allocate budget mts ts =
     foldl (allocate_task budget) \<lparr> schedule = mts, totalProfit = Fin 0, overflowTasks = [] \<rparr> ts"

text \<open>
  \<^verbatim>\<open>scheduleData\<close>: \<open>None\<close> is the \<^verbatim>\<open>null\<close> returned when there is no saved schedule, no
  item or no machine.
\<close>

definition scheduleData ::
  "order list option \<Rightarrow> item list \<Rightarrow> machine list \<Rightarrow> settings \<Rightarrow> scheduleResult option"
where
  "scheduleData scheduleOrders items machines st =
     (case scheduleOrders of
        None \<Rightarrow> None
      | Some orders \<Rightarrow>
          if items = [] \<or> machines = [] then None
          else Some (allocate (totalWorkMinutes st) (init_timelines machines)
                       (sort_tasks (allTasks orders items))))"

subsection \<open>Overflow aggregator\<close>

definition aggregatedOverflow :: "scheduleResult option \<Rightarrow> overflowReport" where
  "aggregatedOverflow sd =
     (case sd of
        None \<Rightarrow> \<lparr> overflow_items = [], overflow_totalProfit = Fin 0 \<rparr>
      | Some r \<Rightarrow>
          \<lparr> overflow_items =
              foldl (\<lambda>acc t.
                       AList.update (name t)
                         ((case map_of acc (name t) of None \<Rightarrow> 0 | Some c \<Rightarrow> c) + 1) acc)
                [] (overflowTasks r),
            overflow_totalProfit =
              foldl (\<lambda>sum t. jadd sum (profit t)) (Fin 0) (overflowTasks r) \<rparr>)"

section \<open>Notions used to state the properties\<close>

text \<open>
  The candidate finish time of a task on a machine name: the machine's cursor plus the
  task's build time (\<open>NaN\<close> for a name that has no timeline).
\<close>

definition candidateFinish :: "machineTimelines \<Rightarrow> task \<Rightarrow> string \<Rightarrow> jsnum" where
  "candidateFinish mts t n =
     (case map_of mts n of None \<Rightarrow> NaN | Some m \<Rightarrow> jadd (currentTime m) (buildTime t))"

text \<open>
  \<open>first_earliest mts t b\<close>: \<open>b\<close> stands in the task's \<open>allowedMachines\<close> and has a
  timeline, its candidate finish time is finite or \<open>-Infinity\<close>, no machine with a timeline
  has a smaller one, and every such machine listed before \<open>b\<close> has a strictly greater one
  (or none: a \<open>NaN\<close>).
\<close>

definition first_earliest :: "machineTimelines \<Rightarrow> task \<Rightarrow> string \<Rightarrow> bool" where
  "first_earliest mts t b \<longleftrightarrow>
     (\<exists>pre post. allowedMachines t = pre @ b # post \<and> b \<in> fst ` set mts
        \<and> jlt (candidateFinish mts t b) PInf
        \<and> (\<forall>n\<in>set pre. n \<in> fst ` set mts \<longrightarrow>
              \<not> jle (candidateFinish mts t n) (candidateFinish mts t b))
        \<and> (\<forall>n\<in>set post. n \<in> fst ` set mts \<longrightarrow>
              \<not> jlt (candidateFinish mts t n) (candidateFinish mts t b)))"

text \<open>The same for a scan that starts with an earliest finish time \<open>e0\<close> already in hand.\<close>

definition scan_found ::
  "machineTimelines \<Rightarrow> task \<Rightarrow> string list \<Rightarrow> jsnum \<Rightarrow> string option \<Rightarrow> jsnum \<Rightarrow> bool"
where
  "scan_found mts t ns e0 b e \<longleftrightarrow>
     (\<exists>pre post n. ns = pre @ n # post \<and> b = Some n \<and> n \<in> fst ` set mts
        \<and> e = candidateFinish mts t n \<and> jlt e e0
        \<and> (\<forall>k\<in>set pre. k \<in> fst ` set mts \<longrightarrow> \<not> jle (candidateFinish mts t k) e)
        \<and> (\<forall>k\<in>set post. k \<in> fst ` set mts \<longrightarrow> \<not> jlt (candidateFinish mts t k) e))"

text \<open>
  The two outcomes of one step of the allocator: the task is appended to the timeline
  \<open>m\<close> of machine \<open>b\<close>, from the cursor to the cursor plus the build time, and its profit
  is counted; or the task is appended to the overflow.
\<close>

definition place :: "scheduleResult \<Rightarrow> task \<Rightarrow> string \<Rightarrow> timeline \<Rightarrow> scheduleResult" where
  "place st t b m =
     st \<lparr> schedule :=
            AList.update b
              \<lparr> tasks = tasks m @ [spread t (currentTime m) (jadd (currentTime m) (buildTime t))],
                currentTime = jadd (currentTime m) (buildTime t) \<rparr>
              (schedule st),
          totalProfit := jadd (totalProfit st) (profit t) \<rparr>"

definition overflow :: "scheduleResult \<Rightarrow> task \<Rightarrow> scheduleResult" where
  "overflow st t = st \<lparr> overflowTasks := overflowTasks st @ [t] \<rparr>"

text \<open>All assigned tasks of a result, timeline after timeline.\<close>

definition assigned :: "scheduleResult \<Rightarrow> scheduledTask list" where
  "assigned r = concat (map (\<lambda>(n, tln). tasks tln) (schedule r))"

text \<open>
  A timeline's tasks run back to back from \<open>t0\<close> and leave the cursor at \<open>cur\<close>: each
  starts where the one before it ended and ends its build time later.
\<close>

fun back_to_back :: "jsnum \<Rightarrow> scheduledTask list \<Rightarrow> jsnum \<Rightarrow> bool" where
  "back_to_back t0 [] cur \<longleftrightarrow> cur = t0"
| "back_to_back t0 (s # ss) cur \<longleftrightarrow>
     startTime s = t0 \<and> endTime s = jadd (startTime s) (buildTime s) \<and> back_to_back (endTime s) ss cur"

text \<open>
  The invariants of a timeline during a run: its tasks run back to back from minute 0 and
  end within the budget; and, for runs without negative build times, the start times
  ascend up to a cursor that is not negative.
\<close>

definition within_budget :: "jsnum \<Rightarrow> timeline \<Rightarrow> bool" where
  "within_budget budget tln \<longleftrightarrow>
     back_to_back (Fin 0) (tasks tln) (currentTime tln)
     \<and> (\<forall>s\<in>set (tasks tln). jle (endTime s) budget)"

definition starts_ascend :: "timeline \<Rightarrow> bool" where
  "starts_ascend tln \<longleftrightarrow> sorted_wrt (\<lambda>a b. jle (startTime a) (startTime b)) (tasks tln)"

definition ascending :: "timeline \<Rightarrow> bool" where
  "ascending tln \<longleftrightarrow>
     starts_ascend tln \<and> (\<forall>s\<in>set (tasks tln). jle (startTime s) (currentTime tln))
     \<and> jle (Fin 0) (currentTime tln)"

text \<open>A ranked sequence: no task has a smaller profit per minute than a later one.\<close>

definition descending :: "task list \<Rightarrow> bool" where
  "descending ts \<longleftrightarrow> sorted_wrt (\<lambda>a b. jle (profitPerMinute b) (profitPerMinute a)) ts"

text \<open>The timeline of a machine before the first task, and a machine pool without the
  machines that repeat an earlier machine's name.\<close>

definition no_timeline :: timeline where
  "no_timeline = \<lparr> tasks = [], currentTime = Fin 0 \<rparr>"

fun drop_repeated :: "string list \<Rightarrow> machine list \<Rightarrow> machine list" where
  "drop_repeated seen [] = []"
| "drop_repeated seen (m # ms) =
     (if machine_name m \<in> set seen then drop_repeated seen ms
      else m # drop_repeated (machine_name m # seen) ms)"

text \<open>
  A build time is missing when the field is absent, \<^verbatim>\<open>null\<close>, the empty string or the
  number \<open>NaN\<close>. A price or cost that does not parse counts as \<open>0\<close>.
\<close>

definition missing :: "jsval \<Rightarrow> bool" where
  "missing v \<longleftrightarrow> v = JUndefined \<or> v = JNull \<or> v = JStr [] \<or> v = JNum NaN"

definition parsed_or_zero :: "jsval \<Rightarrow> jsnum" where
  "parsed_or_zero v = (if parseFloat v = NaN then Fin 0 else parseFloat v)"

text \<open>The start and end minutes of a result, machine by machine.\<close>

definition slots :: "scheduleResult \<Rightarrow> (string \<times> (jsnum \<times> jsnum) list) list" where
  "slots r = map (\<lambda>(n, tln). (n, map (\<lambda>s. (startTime s, endTime s)) (tasks tln))) (schedule r)"

section \<open>Sample inputs\<close>

text \<open>
  One machine, an eight hour day, one item of 60 minutes and 10 profit, ten units ordered:
  eight units fit, two overflow.
\<close>

definition itemsA :: "item list" where
  "itemsA = [\<lparr> item_id = ''item-1'', item_name = ''Coaster'', item_buildTime = JStr ''60'',
               item_price = JStr ''15'', item_cost = JStr ''5'',
               item_allowedMachines = Some [''Laser Cutter''] \<rparr>]"

definition machinesA :: "machine list" where
  "machinesA = [\<lparr> machine_id = ''default-machine-1'', machine_name = ''Laser Cutter'' \<rparr>]"

definition ordersA :: "order list" where
  "ordersA = [\<lparr> order_id = ''order-item-1-1'', itemId = ''item-1'', itemName = ''Coaster'',
                quantity = 10 \<rparr>]"

definition settingsA :: settings where
  "settingsA = \<lparr> workHours = JNum (Fin 8), workdayStartHour = JNum (Fin 9) \<rparr>"

definition unitA :: "nat \<Rightarrow> task" where
  "unitA i = \<lparr> task_id = ''item-1-'' @ dec i, name = ''Coaster'', buildTime = Fin 60,
               profit = Fin 10, profitPerMinute = Fin (1 / 6),
               allowedMachines = [''Laser Cutter''] \<rparr>"

definition lineA :: timeline where
  "lineA = \<lparr> tasks = map (\<lambda>i. spread (unitA i) (Fin (60 * of_nat i)) (Fin (60 * of_nat i + 60)))
                        [0 ..< 8],
             currentTime = Fin 480 \<rparr>"

definition resultA :: scheduleResult where
  "resultA = \<lparr> schedule = [(''Laser Cutter'', lineA)], totalProfit = Fin 80,
               overflowTasks = [unitA 8, unitA 9] \<rparr>"

text \<open>
  Two machines \<open>A\<close> and \<open>B\<close>, one item of 100 minutes allowed on both, five units; and the
  allocator's state after the first unit.
\<close>

definition itemsB :: "item list" where
  "itemsB = [\<lparr> item_id = ''item-1'', item_name = ''Part'', item_buildTime = JStr ''100'',
               item_price = JStr ''15'', item_cost = JStr ''5'',
               item_allowedMachines = Some [''A'', ''B''] \<rparr>]"

definition machinesB :: "machine list" where
  "machinesB = [\<lparr> machine_id = ''machine-1'', machine_name = ''A'' \<rparr>,
                \<lparr> machine_id = ''machine-2'', machine_name = ''B'' \<rparr>]"

definition ordersB :: "order list" where
  "ordersB = [\<lparr> order_id = ''order-item-1-1'', itemId = ''item-1'', itemName = ''Part'',
                quantity = 5 \<rparr>]"

definition firstB :: task where
  "firstB = \<lparr> task_id = ''item-1-0'', name = ''Part'', buildTime = Fin 100,
              profit = Fin 10, profitPerMinute = Fin (1 / 10),
              allowedMachines = [''A'', ''B''] \<rparr>"

definition secondB :: task where
  "secondB = firstB \<lparr> task_id := ''item-1-1'' \<rparr>"

definition stateB1 :: scheduleResult where
  "stateB1 = \<lparr> schedule = [(''A'', \<lparr> tasks = [spread firstB (Fin 0) (Fin 100)],
                                     currentTime = Fin 100 \<rparr>),
                           (''B'', \<lparr> tasks = [], currentTime = Fin 0 \<rparr>)],
               totalProfit = Fin 10, overflowTasks = [] \<rparr>"

text \<open>
  A build time that the guard of the expander reads as not a number and \<^verbatim>\<open>parseFloat\<close>
  reads as \<open>-5\<close>, and a negative length of the working day.
\<close>

definition itemsN :: "item list" where
  "itemsN = [\<lparr> item_id = ''item-1'', item_name = ''Coaster'', item_buildTime = JStr ''-5abc'',
               item_price = JStr ''15'', item_cost = JStr ''5'',
               item_allowedMachines = Some [''Laser Cutter''] \<rparr>]"

definition ordersN :: "order list" where
  "ordersN = [\<lparr> order_id = ''order-item-1-1'', itemId = ''item-1'', itemName = ''Coaster'',
                quantity = 2 \<rparr>]"

definition settingsN :: settings where
  "settingsN = \<lparr> workHours = JNum (Fin (- 1)), workdayStartHour = JNum (Fin 9) \<rparr>"

text \<open>Two items of different profit per minute, with two orders for the first.\<close>

definition itemsC :: "item list" where
  "itemsC = [\<lparr> item_id = ''item-1'', item_name = ''Coaster'', item_buildTime = JStr ''60'',
               item_price = JStr ''15'', item_cost = JStr ''5'',
               item_allowedMachines = Some [''Laser Cutter''] \<rparr>,
             \<lparr> item_id = ''item-2'', item_name = ''Sign'', item_buildTime = JStr ''30'',
               item_price = JStr ''20'', item_cost = JStr ''5'',
               item_allowedMachines = Some [''Laser Cutter''] \<rparr>]"

definition ordersC :: "order list" where
  "ordersC = [\<lparr> order_id = ''order-item-1-1'', itemId = ''item-1'', itemName = ''Coaster'',
                quantity = 2 \<rparr>,
              \<lparr> order_id = ''order-item-2-2'', itemId = ''item-2'', itemName = ''Sign'',
                quantity = 2 \<rparr>,
              \<lparr> order_id = ''order-item-1-3'', itemId = ''item-1'', itemName = ''Coaster'',
                quantity = 1 \<rparr>]"

text \<open>An order for an item that is not in the catalog, an item with build time zero and
  an item whose price is not a number.\<close>

definition orderX :: order where
  "orderX = \<lparr> order_id = ''order-item-9-1'', itemId = ''item-9'', itemName = ''Gone'',
               quantity = 3 \<rparr>"

definition itemsZ :: "item list" where
  "itemsZ = [\<lparr> item_id = ''item-1'', item_name = ''Coaster'', item_buildTime = JStr ''0'',
               item_price = JStr ''15'', item_cost = JStr ''5'',
               item_allowedMachines = Some [''Laser Cutter''] \<rparr>]"

definition itemsP :: "item list" where
  "itemsP = [\<lparr> item_id = ''item-1'', item_name = ''Coaster'', item_buildTime = JStr ''60'',
               item_price = JStr ''abc'', item_cost = JStr ''5'',
               item_allowedMachines = Some [''Laser Cutter''] \<rparr>]"

text \<open>A pool in which the third machine repeats the name of the first.\<close>

definition machinesD :: "machine list" where
  "machinesD = [\<lparr> machine_id = ''machine-1'', machine_name = ''A'' \<rparr>,
                \<lparr> machine_id = ''machine-2'', machine_name = ''B'' \<rparr>,
                \<lparr> machine_id = ''machine-3'', machine_name = ''A'' \<rparr>]"

section \<open>Comparing numbers\<close>

lemma jlt_trans: "jlt a b \<Longrightarrow> jlt b c \<Longrightarrow> jlt a c"
  by (cases a; cases b; cases c) simp_all

lemma jlt_not_jle: "jlt a b \<Longrightarrow> \<not> jle b a"
  by (cases a; cases b) simp_all

lemma jlt_not_NaN: "jlt a b \<Longrightarrow> a \<noteq> NaN \<and> b \<noteq> NaN"
  by (cases a; cases b) simp_all

lemma not_jlt_jlt_not_jle: "\<not> jlt c e0 \<Longrightarrow> jlt e e0 \<Longrightarrow> \<not> jle c e"
  by (cases c; cases e0; cases e) simp_all

lemma jle_trans: "jle a b \<Longrightarrow> jle b c \<Longrightarrow> jle a c"
  by (cases a; cases b; cases c) simp_all

lemma jlt_imp_jle: "jlt a b \<Longrightarrow> jle a b"
  by (cases a; cases b) simp_all

lemma not_jlt_imp_jle: "a \<noteq> NaN \<Longrightarrow> b \<noteq> NaN \<Longrightarrow> \<not> jlt a b \<Longrightarrow> jle b a"
  by (cases a; cases b) auto

lemma not_both: "a \<noteq> NaN \<Longrightarrow> b \<noteq> NaN \<Longrightarrow> \<not> jle a b \<Longrightarrow> \<not> jlt b a \<Longrightarrow> False"
  by (cases a; cases b) auto

lemma cursor_advances:
  "jle (Fin 0) cur \<Longrightarrow> jlt (jadd cur bt) PInf \<Longrightarrow> \<not> jlt bt (Fin 0) \<Longrightarrow> jle cur (jadd cur bt)"
  by (cases cur; cases bt) simp_all

section \<open>The scan for the best machine\<close>

lemma map_of_dom_fst: "map_of mts n = Some m \<Longrightarrow> n \<in> fst ` set mts"
  by (metis map_of_eq_None_iff option.distinct(1))

lemma scan_found_here:
  assumes "n \<in> fst ` set mts" "jlt (candidateFinish mts t n) e0"
    and "\<forall>k\<in>set ns. k \<in> fst ` set mts \<longrightarrow>
           \<not> jlt (candidateFinish mts t k) (candidateFinish mts t n)"
  shows "scan_found mts t (n # ns) e0 (Some n) (candidateFinish mts t n)"
  unfolding scan_found_def
  by (rule exI [of _ "[]"], rule exI [of _ ns], rule exI [of _ n]) (use assms in simp)

lemma scan_found_later:
  assumes "scan_found mts t ns e1 b e" "jlt e e0"
    and "n \<in> fst ` set mts \<longrightarrow> \<not> jle (candidateFinish mts t n) e"
  shows "scan_found mts t (n # ns) e0 b e"
proof -
  from assms(1) obtain pre post k where h: "ns = pre @ k # post" "b = Some k"
    "k \<in> fst ` set mts" "e = candidateFinish mts t k"
    "\<forall>k\<in>set pre. k \<in> fst ` set mts \<longrightarrow> \<not> jle (candidateFinish mts t k) e"
    "\<forall>k\<in>set post. k \<in> fst ` set mts \<longrightarrow> \<not> jlt (candidateFinish mts t k) e"
    unfolding scan_found_def by blast
  show ?thesis
    unfolding scan_found_def
    by (rule exI [of _ "n # pre"], rule exI [of _ post], rule exI [of _ k])
      (use h assms(2,3) in simp)
qed

lemma scan_found_jlt: "scan_found mts t ns e0 b e \<Longrightarrow> jlt e e0"
  unfolding scan_found_def by blast

lemma scan_machines_spec:
  assumes "scan_machines mts t ns (b0, e0) = (b, e)"
  shows "(b = b0 \<and> e = e0
            \<and> (\<forall>n\<in>set ns. n \<in> fst ` set mts \<longrightarrow> \<not> jlt (candidateFinish mts t n) e0))
         \<or> scan_found mts t ns e0 b e"
  using assms
proof (induction ns arbitrary: b0 e0)
  case Nil
  then show ?case by simp
next
  case (Cons n ns)
  show ?case
  proof (cases "map_of mts n")
    case None
    then have nin: "n \<notin> fst ` set mts" by (simp add: map_of_eq_None_iff)
    from Cons.prems None have "scan_machines mts t ns (b0, e0) = (b, e)" by simp
    from Cons.IH [OF this] show ?thesis
    proof
      assume "b = b0 \<and> e = e0
        \<and> (\<forall>n\<in>set ns. n \<in> fst ` set mts \<longrightarrow> \<not> jlt (candidateFinish mts t n) e0)"
      with nin show ?thesis by simp
    next
      assume f: "scan_found mts t ns e0 b e"
      then have "scan_found mts t (n # ns) e0 b e"
        by (rule scan_found_later) (use f nin in \<open>simp_all add: scan_found_jlt\<close>)
      then show ?thesis ..
    qed
  next
    case (Some m)
    then have nin: "n \<in> fst ` set mts" by (rule map_of_dom_fst)
    have cf: "candidateFinish mts t n = jadd (currentTime m) (buildTime t)"
      by (simp add: candidateFinish_def Some)
    show ?thesis
    proof (cases "jlt (candidateFinish mts t n) e0")
      case True
      with Cons.prems Some cf
      have "scan_machines mts t ns (Some n, candidateFinish mts t n) = (b, e)" by simp
      from Cons.IH [OF this] show ?thesis
      proof
        assume h: "b = Some n \<and> e = candidateFinish mts t n \<and>
          (\<forall>k\<in>set ns. k \<in> fst ` set mts \<longrightarrow>
             \<not> jlt (candidateFinish mts t k) (candidateFinish mts t n))"
        then have "scan_found mts t (n # ns) e0 b e"
          using scan_found_here [OF nin True] by simp
        then show ?thesis ..
      next
        assume f: "scan_found mts t ns (candidateFinish mts t n) b e"
        then have lt: "jlt e (candidateFinish mts t n)" by (rule scan_found_jlt)
        have "scan_found mts t (n # ns) e0 b e"
        proof (rule scan_found_later [OF f])
          show "jlt e e0" using lt True by (rule jlt_trans)
          show "n \<in> fst ` set mts \<longrightarrow> \<not> jle (candidateFinish mts t n) e"
            using lt by (simp add: jlt_not_jle)
        qed
        then show ?thesis ..
      qed
    next
      case False
      with Cons.prems Some cf
      have "scan_machines mts t ns (b0, e0) = (b, e)" by simp
      from Cons.IH [OF this] show ?thesis
      proof
        assume "b = b0 \<and> e = e0
          \<and> (\<forall>n\<in>set ns. n \<in> fst ` set mts \<longrightarrow> \<not> jlt (candidateFinish mts t n) e0)"
        with False show ?thesis by simp
      next
        assume f: "scan_found mts t ns e0 b e"
        then have lt: "jlt e e0" by (rule scan_found_jlt)
        have "scan_found mts t (n # ns) e0 b e"
        proof (rule scan_found_later [OF f lt])
          show "n \<in> fst ` set mts \<longrightarrow> \<not> jle (candidateFinish mts t n) e"
            using False lt by (simp add: not_jlt_jlt_not_jle)
        qed
        then show ?thesis ..
      qed
    qed
  qed
qed

lemma best_machine_cases:
  assumes "best_machine mts t = (bm, e)"
  shows "(bm = None \<and> e = PInf
            \<and> (\<forall>n\<in>set (allowedMachines t). n \<in> fst ` set mts \<longrightarrow>
                  \<not> jlt (candidateFinish mts t n) PInf))
         \<or> (\<exists>b. bm = Some b \<and> e = candidateFinish mts t b \<and> first_earliest mts t b)"
proof -
  from assms have "scan_machines mts t (allowedMachines t) (None, PInf) = (bm, e)"
    by (simp add: best_machine_def)
  from scan_machines_spec [OF this] show ?thesis
    unfolding first_earliest_def scan_found_def by blast
qed

lemma candidateFinish_Some:
  "map_of mts b = Some m \<Longrightarrow> candidateFinish mts t b = jadd (currentTime m) (buildTime t)"
  by (simp add: candidateFinish_def)

lemma first_earliest_present: "first_earliest mts t b \<Longrightarrow> \<exists>m. map_of mts b = Some m"
  unfolding first_earliest_def
  by (metis map_of_eq_None_iff not_Some_eq)

lemma first_earliest_finite: "first_earliest mts t b \<Longrightarrow> jlt (candidateFinish mts t b) PInf"
  unfolding first_earliest_def by blast

lemma first_earliest_unique:
  assumes "first_earliest mts t b" "first_earliest mts t b'"
  shows "b = b'"
proof (rule ccontr)
  assume ne: "b \<noteq> b'"
  from assms(1) obtain pre post where 1: "allowedMachines t = pre @ b # post"
    "b \<in> fst ` set mts" "jlt (candidateFinish mts t b) PInf"
    "\<forall>n\<in>set pre. n \<in> fst ` set mts \<longrightarrow> \<not> jle (candidateFinish mts t n) (candidateFinish mts t b)"
    "\<forall>n\<in>set post. n \<in> fst ` set mts \<longrightarrow> \<not> jlt (candidateFinish mts t n) (candidateFinish mts t b)"
    unfolding first_earliest_def by blast
  from assms(2) obtain pre' post' where 2: "allowedMachines t = pre' @ b' # post'"
    "b' \<in> fst ` set mts" "jlt (candidateFinish mts t b') PInf"
    "\<forall>n\<in>set pre'. n \<in> fst ` set mts \<longrightarrow> \<not> jle (candidateFinish mts t n) (candidateFinish mts t b')"
    "\<forall>n\<in>set post'. n \<in> fst ` set mts \<longrightarrow> \<not> jlt (candidateFinish mts t n) (candidateFinish mts t b')"
    unfolding first_earliest_def by blast
  have nn: "candidateFinish mts t b \<noteq> NaN" "candidateFinish mts t b' \<noteq> NaN"
    using 1(3) 2(3) by (simp_all add: jlt_not_NaN)
  from 1(1) 2(1) have "pre @ b # post = pre' @ b' # post'" by simp
  then consider (a) "b' \<in> set pre" "b \<in> set post'" | (b) "b \<in> set pre'" "b' \<in> set post"
    using ne by (auto simp: append_eq_append_conv2 Cons_eq_append_conv append_eq_Cons_conv)
  then show False
  proof cases
    case a
    then have "\<not> jle (candidateFinish mts t b') (candidateFinish mts t b)"
      "\<not> jlt (candidateFinish mts t b) (candidateFinish mts t b')"
      using 1(4) 2(5) 1(2) 2(2) by auto
    with nn show False using not_both by blast
  next
    case b
    then have "\<not> jle (candidateFinish mts t b) (candidateFinish mts t b')"
      "\<not> jlt (candidateFinish mts t b') (candidateFinish mts t b)"
      using 2(4) 1(5) 1(2) 2(2) by auto
    with nn show False using not_both by blast
  qed
qed

section \<open>One step of the allocator\<close>

lemma spread_simps [simp]:
  "task_id (spread t s e) = task_id t"
  "name (spread t s e) = name t"
  "buildTime (spread t s e) = buildTime t"
  "profit (spread t s e) = profit t"
  "profitPerMinute (spread t s e) = profitPerMinute t"
  "allowedMachines (spread t s e) = allowedMachines t"
  "startTime (spread t s e) = s"
  "endTime (spread t s e) = e"
  "task.truncate (spread t s e) = t"
  by (simp_all add: spread_def task.defs scheduledTask.defs)

lemma place_simps:
  "schedule (place st t b m) =
     AList.update b
       \<lparr> tasks = tasks m @ [spread t (currentTime m) (jadd (currentTime m) (buildTime t))],
         currentTime = jadd (currentTime m) (buildTime t) \<rparr> (schedule st)"
  "totalProfit (place st t b m) = jadd (totalProfit st) (profit t)"
  "overflowTasks (place st t b m) = overflowTasks st"
  by (simp_all add: place_def)

lemma overflow_simps:
  "schedule (overflow st t) = schedule st"
  "totalProfit (overflow st t) = totalProfit st"
  "overflowTasks (overflow st t) = overflowTasks st @ [t]"
  by (simp_all add: overflow_def)

lemma allocate_task_cases:
  "(allocate_task budget st t = overflow st t
      \<and> (\<forall>n\<in>set (allowedMachines t). n \<in> fst ` set (schedule st) \<longrightarrow>
            \<not> jlt (candidateFinish (schedule st) t n) PInf))
   \<or> (\<exists>b m. first_earliest (schedule st) t b \<and> map_of (schedule st) b = Some m
         \<and> allocate_task budget st t =
             (if b \<noteq> [] \<and> jle (candidateFinish (schedule st) t b) budget
              then place st t b m else overflow st t))"
proof -
  obtain bm e where be: "best_machine (schedule st) t = (bm, e)" by (cases "best_machine (schedule st) t")
  from best_machine_cases [OF be] show ?thesis
  proof (elim disjE exE conjE)
    assume "bm = None" "e = PInf"
      "\<forall>n\<in>set (allowedMachines t). n \<in> fst ` set (schedule st) \<longrightarrow>
          \<not> jlt (candidateFinish (schedule st) t n) PInf"
    then show ?thesis using be by (simp add: allocate_task_def overflow_def)
  next
    fix b
    assume h: "bm = Some b" "e = candidateFinish (schedule st) t b"
      "first_earliest (schedule st) t b"
    from first_earliest_present [OF h(3)] obtain m where m: "map_of (schedule st) b = Some m" ..
    have "allocate_task budget st t =
             (if b \<noteq> [] \<and> jle (candidateFinish (schedule st) t b) budget
              then place st t b m else overflow st t)"
      using be h(1,2) m
      by (simp add: allocate_task_def overflow_def place_def candidateFinish_Some)
    with h(3) m show ?thesis by blast
  qed
qed

lemma allocate_snoc:
  "allocate budget mts (ts @ [t]) = allocate_task budget (allocate budget mts ts) t"
  by (simp add: allocate_def)

lemma allocate_Nil:
  "allocate budget mts [] = \<lparr> schedule = mts, totalProfit = Fin 0, overflowTasks = [] \<rparr>"
  by (simp add: allocate_def)

subsection \<open>No task is lost\<close>

lemma update_tasks_mset:
  "map_of al k = Some m \<Longrightarrow>
   mset (concat (map (\<lambda>(n, tln). tasks tln)
           (AList.update k \<lparr> tasks = tasks m @ [x], currentTime = c \<rparr> al)))
     = add_mset x (mset (concat (map (\<lambda>(n, tln). tasks tln) al)))"
  by (induction al) (auto split: if_splits)

lemma assigned_place:
  "map_of (schedule st) b = Some m \<Longrightarrow>
   mset (assigned (place st t b m))
     = add_mset (spread t (currentTime m) (jadd (currentTime m) (buildTime t))) (mset (assigned st))"
  by (simp add: assigned_def place_simps update_tasks_mset)

lemma assigned_overflow: "assigned (overflow st t) = assigned st"
  by (simp add: assigned_def overflow_simps)

text \<open>One step keeps every task: it joins either the assigned tasks or the overflow.\<close>

lemma allocate_task_conserves:
  "mset (map task.truncate (assigned (allocate_task budget st t)))
     + mset (overflowTasks (allocate_task budget st t))
   = add_mset t (mset (map task.truncate (assigned st)) + mset (overflowTasks st))"
  using allocate_task_cases [of budget st t]
proof (elim disjE exE conjE)
  assume "allocate_task budget st t = overflow st t"
  then show ?thesis by (simp add: assigned_overflow overflow_simps)
next
  fix b m
  assume m: "map_of (schedule st) b = Some m"
    and eq: "allocate_task budget st t =
      (if b \<noteq> [] \<and> jle (candidateFinish (schedule st) t b) budget
       then place st t b m else overflow st t)"
  have "mset (map task.truncate (assigned (place st t b m)))
          = add_mset t (mset (map task.truncate (assigned st)))"
    using assigned_place [OF m, of t]
    by (metis image_mset_add_mset mset_map spread_simps(9))
  then show ?thesis using eq by (simp add: assigned_overflow overflow_simps place_simps)
qed

lemma allocate_conserves:
  "mset (map task.truncate (assigned (allocate budget mts ts)))
     + mset (overflowTasks (allocate budget mts ts))
   = mset (map task.truncate (concat (map (\<lambda>(n, tln). tasks tln) mts))) + mset ts"
proof (induction ts rule: rev_induct)
  case Nil
  show ?case by (simp add: allocate_Nil assigned_def)
next
  case (snoc t ts)
  show ?case
    unfolding allocate_snoc allocate_task_conserves snoc.IH by simp
qed

lemma no_tasks_concat:
  "\<forall>(n, tln)\<in>set mts. tasks tln = [] \<Longrightarrow> concat (map (\<lambda>(n, tln). tasks tln) mts) = []"
  by (induction mts) auto

subsection \<open>The profit counted is the profit assigned\<close>

lemma allocate_task_profit:
  "totalProfit st = (\<Sum>s\<in>#mset (assigned st). profit s) \<Longrightarrow>
   totalProfit (allocate_task budget st t)
     = (\<Sum>s\<in>#mset (assigned (allocate_task budget st t)). profit s)"
  using allocate_task_cases [of budget st t]
proof (elim disjE exE conjE)
  assume "totalProfit st = (\<Sum>s\<in>#mset (assigned st). profit s)"
    "allocate_task budget st t = overflow st t"
  then show ?thesis by (simp add: assigned_overflow overflow_simps)
next
  fix b m
  assume inv: "totalProfit st = (\<Sum>s\<in>#mset (assigned st). profit s)"
    and m: "map_of (schedule st) b = Some m"
    and eq: "allocate_task budget st t =
      (if b \<noteq> [] \<and> jle (candidateFinish (schedule st) t b) budget
       then place st t b m else overflow st t)"
  have "(\<Sum>s\<in>#mset (assigned (place st t b m)). profit s)
          = jadd (totalProfit st) (profit t)"
    unfolding assigned_place [OF m] using inv
    by (simp add: plus_jsnum_def [symmetric] add.commute)
  then show ?thesis using eq inv by (simp add: assigned_overflow overflow_simps place_simps)
qed

lemma allocate_profit:
  assumes "\<forall>(n, tln)\<in>set mts. tasks tln = []"
  shows "totalProfit (allocate budget mts ts)
           = (\<Sum>s\<in>#mset (assigned (allocate budget mts ts)). profit s)"
proof (induction ts rule: rev_induct)
  case Nil
  show ?case by (simp add: allocate_Nil assigned_def zero_jsnum_def no_tasks_concat [OF assms])
next
  case (snoc t ts)
  then show ?case unfolding allocate_snoc by (rule allocate_task_profit)
qed

lemma foldl_jadd_sum:
  "foldl (\<lambda>sum t. jadd sum (profit t)) a ts = a + (\<Sum>t\<in>#mset ts. profit t)"
  by (induction ts arbitrary: a) (simp_all add: plus_jsnum_def [symmetric] ac_simps)

subsection \<open>The shape of a timeline\<close>

lemma back_to_back_snoc:
  "back_to_back t0 (ss @ [s]) e \<longleftrightarrow>
     (\<exists>cur. back_to_back t0 ss cur \<and> startTime s = cur
        \<and> endTime s = jadd (startTime s) (buildTime s) \<and> e = endTime s)"
  by (induction ss arbitrary: t0) auto

lemma back_to_back_cursor:
  "back_to_back t0 ss cur \<Longrightarrow> cur = (if ss = [] then t0 else endTime (last ss))"
  by (induction ss arbitrary: t0) auto

lemma set_update_cases:
  "x \<in> set (AList.update k v al) \<Longrightarrow> x = (k, v) \<or> x \<in> set al"
  by (induction al) (auto split: if_splits)

lemma within_budget_place:
  assumes "within_budget budget m" "jle (jadd (currentTime m) (buildTime t)) budget"
  shows "within_budget budget
           \<lparr> tasks = tasks m @ [spread t (currentTime m) (jadd (currentTime m) (buildTime t))],
             currentTime = jadd (currentTime m) (buildTime t) \<rparr>"
  using assms by (auto simp: within_budget_def back_to_back_snoc)

lemma allocate_task_within_budget:
  assumes "\<forall>(n, tln)\<in>set (schedule st). within_budget budget tln"
  shows "\<forall>(n, tln)\<in>set (schedule (allocate_task budget st t)). within_budget budget tln"
  using allocate_task_cases [of budget st t]
proof (elim disjE exE conjE)
  assume "allocate_task budget st t = overflow st t"
  with assms show ?thesis by (simp add: overflow_simps)
next
  fix b m
  assume m: "map_of (schedule st) b = Some m"
    and eq: "allocate_task budget st t =
      (if b \<noteq> [] \<and> jle (candidateFinish (schedule st) t b) budget
       then place st t b m else overflow st t)"
  show ?thesis
  proof (cases "b \<noteq> [] \<and> jle (candidateFinish (schedule st) t b) budget")
    case False
    with eq assms show ?thesis by (simp add: overflow_simps)
  next
    case True
    then have le: "jle (jadd (currentTime m) (buildTime t)) budget"
      by (simp add: candidateFinish_Some [OF m])
    from m have "(b, m) \<in> set (schedule st)" by (rule map_of_SomeD)
    with assms have "within_budget budget m" by auto
    from within_budget_place [OF this le] assms
    have "\<forall>(n, tln)\<in>set (schedule (place st t b m)). within_budget budget tln"
      unfolding place_simps by (auto dest!: set_update_cases)
    with eq True show ?thesis by simp
  qed
qed

lemma allocate_within_budget:
  assumes "\<forall>(n, tln)\<in>set mts. within_budget budget tln"
  shows "\<forall>(n, tln)\<in>set (schedule (allocate budget mts ts)). within_budget budget tln"
proof (induction ts rule: rev_induct)
  case Nil
  from assms show ?case by (simp add: allocate_Nil)
next
  case (snoc t ts)
  then show ?case unfolding allocate_snoc by (rule allocate_task_within_budget)
qed

text \<open>Start times ascend when no task has a negative build time.\<close>

lemma ascending_place:
  assumes "ascending m" "jlt (jadd (currentTime m) (buildTime t)) PInf"
    "\<not> jlt (buildTime t) (Fin 0)"
  shows "ascending
           \<lparr> tasks = tasks m @ [spread t (currentTime m) (jadd (currentTime m) (buildTime t))],
             currentTime = jadd (currentTime m) (buildTime t) \<rparr>"
proof -
  from assms have adv: "jle (currentTime m) (jadd (currentTime m) (buildTime t))"
    by (simp add: ascending_def cursor_advances)
  have "jle (Fin 0) (jadd (currentTime m) (buildTime t))"
    using assms(1) adv unfolding ascending_def by (blast intro: jle_trans)
  moreover have "\<forall>s\<in>set (tasks m). jle (startTime s) (jadd (currentTime m) (buildTime t))"
    using assms(1) adv unfolding ascending_def by (blast intro: jle_trans)
  ultimately show ?thesis
    using assms(1) adv by (simp add: ascending_def starts_ascend_def sorted_wrt_append)
qed

lemma allocate_task_ascending:
  assumes "\<forall>(n, tln)\<in>set (schedule st). ascending tln" "\<not> jlt (buildTime t) (Fin 0)"
  shows "\<forall>(n, tln)\<in>set (schedule (allocate_task budget st t)). ascending tln"
  using allocate_task_cases [of budget st t]
proof (elim disjE exE conjE)
  assume "allocate_task budget st t = overflow st t"
  with assms show ?thesis by (simp add: overflow_simps)
next
  fix b m
  assume fe: "first_earliest (schedule st) t b"
    and m: "map_of (schedule st) b = Some m"
    and eq: "allocate_task budget st t =
      (if b \<noteq> [] \<and> jle (candidateFinish (schedule st) t b) budget
       then place st t b m else overflow st t)"
  show ?thesis
  proof (cases "b \<noteq> [] \<and> jle (candidateFinish (schedule st) t b) budget")
    case False
    with eq assms show ?thesis by (simp add: overflow_simps)
  next
    case True
    from first_earliest_finite [OF fe]
    have fin: "jlt (jadd (currentTime m) (buildTime t)) PInf"
      by (simp add: candidateFinish_Some [OF m])
    from m have "(b, m) \<in> set (schedule st)" by (rule map_of_SomeD)
    with assms have "ascending m" by auto
    from ascending_place [OF this fin assms(2)] assms(1)
    have "\<forall>(n, tln)\<in>set (schedule (place st t b m)). ascending tln"
      unfolding place_simps by (auto dest!: set_update_cases)
    with eq True show ?thesis by simp
  qed
qed

lemma allocate_ascending:
  assumes "\<forall>(n, tln)\<in>set mts. ascending tln" "\<forall>t\<in>set ts. \<not> jlt (buildTime t) (Fin 0)"
  shows "\<forall>(n, tln)\<in>set (schedule (allocate budget mts ts)). ascending tln"
  using assms(2)
proof (induction ts rule: rev_induct)
  case Nil
  from assms(1) show ?case by (simp add: allocate_Nil)
next
  case (snoc t ts)
  then show ?case unfolding allocate_snoc by (intro allocate_task_ascending) simp_all
qed

subsection \<open>The machine names of the schedule never change\<close>

lemma allocate_task_keys: "map fst (schedule (allocate_task budget st t)) = map fst (schedule st)"
  using allocate_task_cases [of budget st t]
proof (elim disjE exE conjE)
  assume "allocate_task budget st t = overflow st t"
  then show ?thesis by (simp add: overflow_simps)
next
  fix b m
  assume m: "map_of (schedule st) b = Some m"
    and eq: "allocate_task budget st t =
      (if b \<noteq> [] \<and> jle (candidateFinish (schedule st) t b) budget
       then place st t b m else overflow st t)"
  from m have "b \<in> set (map fst (schedule st))" by (metis map_of_dom_fst set_map)
  then show ?thesis using eq by (simp add: place_simps overflow_simps update_keys)
qed

lemma allocate_keys: "map fst (schedule (allocate budget mts ts)) = map fst mts"
  by (induction ts rule: rev_induct) (simp_all add: allocate_Nil allocate_snoc allocate_task_keys)

section \<open>The ranking\<close>

lemma sort_tasks_Cons: "sort_tasks (t # ts) = insert_task t (sort_tasks ts)"
  by (simp add: sort_tasks_def)

lemma mset_insert_task: "mset (insert_task a bs) = add_mset a (mset bs)"
  by (induction bs) simp_all

lemma mset_sort_tasks: "mset (sort_tasks ts) = mset ts"
  by (induction ts) (simp_all add: sort_tasks_Cons mset_insert_task, simp add: sort_tasks_def)

lemma set_sort_tasks: "set (sort_tasks ts) = set ts"
  by (metis mset_sort_tasks set_mset_mset)

lemma set_insert_task: "set (insert_task a bs) = insert a (set bs)"
  by (metis mset_insert_task set_mset_add_mset_insert set_mset_mset)

lemma comparator_pos:
  "profitPerMinute a \<noteq> NaN \<Longrightarrow> profitPerMinute b \<noteq> NaN \<Longrightarrow>
   jlt (Fin 0) (comparator a b) \<longleftrightarrow> jlt (profitPerMinute a) (profitPerMinute b)"
  unfolding comparator_def jsub_def
  by (cases "profitPerMinute a"; cases "profitPerMinute b") auto

lemma comparator_tie: "profitPerMinute a = profitPerMinute b \<Longrightarrow> \<not> jlt (Fin 0) (comparator a b)"
  unfolding comparator_def jsub_def by (cases "profitPerMinute b") simp_all

lemma descending_insert_task:
  assumes "profitPerMinute a \<noteq> NaN" "\<forall>b\<in>set bs. profitPerMinute b \<noteq> NaN" "descending bs"
  shows "descending (insert_task a bs)"
  using assms(2,3)
proof (induction bs)
  case Nil
  show ?case by (simp add: descending_def)
next
  case (Cons b bs)
  have nb: "profitPerMinute b \<noteq> NaN" using Cons.prems(1) by simp
  have tail: "descending bs" "\<forall>x\<in>set bs. jle (profitPerMinute x) (profitPerMinute b)"
    using Cons.prems(2) by (simp_all add: descending_def)
  show ?case
  proof (cases "jlt (profitPerMinute a) (profitPerMinute b)")
    case True
    have "descending (insert_task a bs)" using Cons.IH Cons.prems(1) tail(1) by simp
    moreover have "\<forall>x\<in>set (insert_task a bs). jle (profitPerMinute x) (profitPerMinute b)"
      using tail(2) True by (simp add: set_insert_task jlt_imp_jle)
    ultimately show ?thesis
      using True by (simp add: comparator_pos [OF assms(1) nb] descending_def)
  next
    case False
    then have ba: "jle (profitPerMinute b) (profitPerMinute a)"
      by (simp add: not_jlt_imp_jle [OF assms(1) nb])
    then have "\<forall>x\<in>set bs. jle (profitPerMinute x) (profitPerMinute a)"
      using tail(2) by (blast intro: jle_trans)
    then show ?thesis
      using False ba Cons.prems(2)
      by (simp add: comparator_pos [OF assms(1) nb] descending_def)
  qed
qed

lemma descending_sort_tasks:
  "\<forall>t\<in>set ts. profitPerMinute t \<noteq> NaN \<Longrightarrow> descending (sort_tasks ts)"
proof (induction ts)
  case Nil
  show ?case by (simp add: sort_tasks_def descending_def)
next
  case (Cons t ts)
  then show ?case
    by (simp add: sort_tasks_Cons descending_insert_task set_sort_tasks)
qed

lemma filter_insert_task:
  "filter (\<lambda>t. profitPerMinute t = k) (insert_task a bs)
     = filter (\<lambda>t. profitPerMinute t = k) (a # bs)"
proof (induction bs)
  case Nil
  show ?case by simp
next
  case (Cons b bs)
  show ?case
  proof (cases "jlt (Fin 0) (comparator a b)")
    case True
    then have "profitPerMinute a \<noteq> profitPerMinute b" using comparator_tie by blast
    with True Cons.IH show ?thesis by auto
  next
    case False
    then show ?thesis by simp
  qed
qed

lemma stable_sort_tasks:
  "filter (\<lambda>t. profitPerMinute t = k) (sort_tasks ts) = filter (\<lambda>t. profitPerMinute t = k) ts"
proof (induction ts)
  case Nil
  show ?case by (simp add: sort_tasks_def)
next
  case (Cons t ts)
  then show ?case by (simp add: sort_tasks_Cons filter_insert_task)
qed

section \<open>Task identities\<close>

lemma digits_val_snoc: "digits_val (ds @ [c]) = 10 * digits_val ds + digit_val c"
  by (simp add: digits_val_def)

lemma digits_val_dec: "digits_val (dec n) = n"
proof (induction n rule: dec.induct)
  case (1 n)
  show ?case
  proof (cases "n < 10")
    case True
    then show ?thesis by (subst dec.simps) (simp add: digits_val_def digit_val_def)
  next
    case False
    have "n mod 10 < 10" by simp
    then have "digit_val (char_of (48 + n mod 10)) = n mod 10"
      unfolding digit_val_def by simp
    with False 1 show ?thesis
      by (subst dec.simps) (simp add: digits_val_snoc)
  qed
qed

lemma dec_inj: "dec m = dec n \<Longrightarrow> m = n"
  by (metis digits_val_dec)

lemma dec_digits: "c \<in> set (dec n) \<Longrightarrow> is_digit c"
proof (induction n rule: dec.induct)
  case (1 n)
  show ?case
  proof (cases "n < 10")
    case True
    with "1.prems" show ?thesis by (subst (asm) dec.simps) (simp add: is_digit_def)
  next
    case False
    have "n mod 10 < 10" by simp
    then have "is_digit (char_of (48 + n mod 10))" unfolding is_digit_def by simp
    with False 1 show ?thesis by (subst (asm) dec.simps) auto
  qed
qed

lemma dash_not_in_dec: "CHR ''-'' \<notin> set (dec n)"
  using dec_digits [of "CHR ''-''" n] by (auto simp: is_digit_def)

lemma takeWhile_until: "x \<notin> set xs \<Longrightarrow> takeWhile (\<lambda>c. c \<noteq> x) (xs @ x # r) = xs"
  by (induction xs) auto

lemma digits_before_dash:
  "takeWhile (\<lambda>c. c \<noteq> CHR ''-'') (rev (dec i) @ CHR ''-'' # r) = rev (dec i)"
  by (rule takeWhile_until) (simp add: dash_not_in_dec)

lemma task_id_inj:
  assumes "a @ CHR ''-'' # dec i = b @ CHR ''-'' # dec j"
  shows "a = b \<and> i = j"
proof -
  from assms have "rev (a @ CHR ''-'' # dec i) = rev (b @ CHR ''-'' # dec j)" by (rule arg_cong)
  then have eq: "rev (dec i) @ CHR ''-'' # rev a = rev (dec j) @ CHR ''-'' # rev b" by simp
  then have "takeWhile (\<lambda>c. c \<noteq> CHR ''-'') (rev (dec i) @ CHR ''-'' # rev a)
               = takeWhile (\<lambda>c. c \<noteq> CHR ''-'') (rev (dec j) @ CHR ''-'' # rev b)"
    by (rule arg_cong)
  then have d: "rev (dec i) = rev (dec j)" by (simp only: digits_before_dash)
  with eq have "rev a = rev b" by simp
  with d show ?thesis by (simp add: dec_inj)
qed

section \<open>The initial timelines\<close>

lemma keys_update: "fst ` set (AList.update k v al) = insert k (fst ` set al)"
  by (induction al) auto

lemma init_step_keys:
  "fst ` set (foldl (\<lambda>acc m. AList.update (machine_name m) v acc) acc ms)
     = fst ` set acc \<union> machine_name ` set ms"
  by (induction ms arbitrary: acc) (simp_all add: keys_update)

lemma init_step_distinct:
  "distinct (map fst acc) \<Longrightarrow>
   distinct (map fst (foldl (\<lambda>acc m. AList.update (machine_name m) v acc) acc ms))"
  by (induction ms arbitrary: acc) (simp_all add: distinct_update)

lemma init_step_values:
  "\<forall>(n, x)\<in>set acc. x = v \<Longrightarrow>
   \<forall>(n, x)\<in>set (foldl (\<lambda>acc m. AList.update (machine_name m) v acc) acc ms). x = v"
proof (induction ms arbitrary: acc)
  case Nil
  then show ?case by simp
next
  case (Cons m ms)
  have "\<forall>(n, x)\<in>set (AList.update (machine_name m) v acc). x = v"
    using Cons.prems by (auto dest!: set_update_cases)
  from Cons.IH [OF this] show ?case by simp
qed

lemma update_same_value:
  assumes "\<forall>(n, x)\<in>set acc. x = v" "k \<in> fst ` set acc"
  shows "AList.update k v acc = acc"
proof -
  from assms(2) obtain x where "map_of acc k = Some x"
    by (metis map_of_eq_None_iff not_Some_eq)
  moreover from this have "(k, x) \<in> set acc" by (rule map_of_SomeD)
  ultimately have "map_of acc k = Some v" using assms(1) by auto
  then show ?thesis by (rule update_triv)
qed

lemma init_step_drop_repeated:
  assumes "\<forall>(n, x)\<in>set acc. x = v" "set seen = fst ` set acc"
  shows "foldl (\<lambda>acc m. AList.update (machine_name m) v acc) acc (drop_repeated seen ms)
           = foldl (\<lambda>acc m. AList.update (machine_name m) v acc) acc ms"
  using assms
proof (induction ms arbitrary: acc seen)
  case Nil
  show ?case by simp
next
  case (Cons m ms)
  show ?case
  proof (cases "machine_name m \<in> set seen")
    case True
    then have "AList.update (machine_name m) v acc = acc"
      using Cons.prems by (intro update_same_value) simp_all
    with True Cons show ?thesis by simp
  next
    case False
    have 1: "\<forall>(n, x)\<in>set (AList.update (machine_name m) v acc). x = v"
      using Cons.prems(1) by (auto dest!: set_update_cases)
    have 2: "set (machine_name m # seen) = fst ` set (AList.update (machine_name m) v acc)"
      using Cons.prems(2) by (simp add: keys_update)
    from Cons.IH [OF 1 2] False show ?thesis by simp
  qed
qed

lemma drop_repeated_Nil_iff: "drop_repeated [] ms = [] \<longleftrightarrow> ms = []"
  by (cases ms) simp_all

lemma init_timelines_drop_repeated: "init_timelines (drop_repeated [] ms) = init_timelines ms"
  unfolding init_timelines_def by (rule init_step_drop_repeated) simp_all

lemma init_timelines_keys: "fst ` set (init_timelines ms) = machine_name ` set ms"
  unfolding init_timelines_def by (simp add: init_step_keys)

lemma init_timelines_distinct: "distinct (map fst (init_timelines ms))"
  unfolding init_timelines_def by (rule init_step_distinct) simp

lemma init_timelines_values: "\<forall>(n, x)\<in>set (init_timelines ms). x = no_timeline"
  unfolding init_timelines_def no_timeline_def by (rule init_step_values) simp

lemma init_no_tasks: "\<forall>(n, tln)\<in>set (init_timelines ms). tasks tln = []"
  using init_timelines_values [of ms] by (auto simp: no_timeline_def)

section \<open>The expander's guard and the whole run\<close>

lemma guard_iff:
  "(\<not> truthy v \<or> jle (ToNumber v) (Fin 0)) \<longleftrightarrow> (missing v \<or> jle (ToNumber v) (Fin 0))"
proof (cases v)
  case (JNum n)
  then show ?thesis by (cases n) (auto simp: missing_def)
next
  case (JStr s)
  then show ?thesis by (auto simp: missing_def string_to_number_def trim_def)
qed (auto simp: missing_def)

lemma or_zero_parse: "or_zero (parseFloat v) = parsed_or_zero v"
  by (simp add: or_zero_def parsed_or_zero_def)

lemma scheduleData_Some:
  assumes "scheduleData so items machines st = Some r"
  obtains orders where "so = Some orders" "items \<noteq> []" "machines \<noteq> []"
    "r = allocate (totalWorkMinutes st) (init_timelines machines) (sort_tasks (allTasks orders items))"
  using assms unfolding scheduleData_def by (auto split: option.splits if_splits)

lemma runA: "scheduleData (Some ordersA) itemsA machinesA settingsA = Some resultA"
  by code_simp

lemma budgetA: "totalWorkMinutes settingsA = Fin 480"
  by code_simp

lemma stateB1_reached:
  "allocate (Fin 480) (init_timelines machinesB) (take 1 (sort_tasks (allTasks ordersB itemsB)))
     = stateB1"
  by code_simp

text \<open>
  Five tasks of 100 minutes allowed on \<open>A\<close> and \<open>B\<close>, whatever else they carry, alternate
  between the two idle machines.
\<close>

lemma five_units_alternate:
  assumes "\<forall>t\<in>set ts. buildTime t = Fin 100 \<and> allowedMachines t = [''A'', ''B'']"
    and "length ts = 5"
  shows "slots (allocate (Fin 480)
           [(''A'', \<lparr> tasks = [], currentTime = Fin 0 \<rparr>),
            (''B'', \<lparr> tasks = [], currentTime = Fin 0 \<rparr>)] ts)
         = [(''A'', [(Fin 0, Fin 100), (Fin 100, Fin 200), (Fin 200, Fin 300)]),
            (''B'', [(Fin 0, Fin 100), (Fin 100, Fin 200)])]"
proof -
  from assms(2) obtain a b c d e where ts: "ts = [a, b, c, d, e]"
    by (auto simp: length_Suc_conv eval_nat_numeral)
  with assms(1) have p:
    "buildTime a = Fin 100" "allowedMachines a = [''A'', ''B'']"
    "buildTime b = Fin 100" "allowedMachines b = [''A'', ''B'']"
    "buildTime c = Fin 100" "allowedMachines c = [''A'', ''B'']"
    "buildTime d = Fin 100" "allowedMachines d = [''A'', ''B'']"
    "buildTime e = Fin 100" "allowedMachines e = [''A'', ''B'']"
    by simp_all
  show ?thesis
    unfolding ts
    by (simp add: allocate_def allocate_task_def best_machine_def p slots_def)
qed

lemma reads_100:
  assumes "v \<in> {JStr ''100'', JNum (Fin 100)}"
  shows "truthy v" "\<not> jle (ToNumber v) (Fin 0)" "parseFloat v = Fin 100"
proof -
  have "truthy (JStr ''100'')" "\<not> jle (ToNumber (JStr ''100'')) (Fin 0)"
    "parseFloat (JStr ''100'') = Fin 100" by code_simp+
  with assms show "truthy v" "\<not> jle (ToNumber v) (Fin 0)" "parseFloat v = Fin 100" by auto
qed

lemma length_sort_tasks: "length (sort_tasks ts) = length ts"
  by (metis mset_sort_tasks size_mset)

text \<open>
  Where the guard's comparison and \<^verbatim>\<open>parseFloat\<close> read every build time alike, no task
  has a negative build time.
\<close>

lemma not_jle_not_jlt: "\<not> jle a b \<Longrightarrow> \<not> jlt a b"
  using jlt_imp_jle by blast

lemma plain_build_times:
  assumes "\<forall>it\<in>set items. ToNumber (item_buildTime it) = parseFloat (item_buildTime it)"
  shows "\<forall>t\<in>set (allTasks orders items). \<not> jlt (buildTime t) (Fin 0)"
proof
  fix t
  assume "t \<in> set (allTasks orders items)"
  then obtain ord where t: "t \<in> set (expand_order items ord)"
    by (auto simp: allTasks_def)
  then obtain it where f: "find (\<lambda>i. item_id i = itemId ord) items = Some it"
    by (cases "find (\<lambda>i. item_id i = itemId ord) items") (auto simp: expand_order_def)
  then have "it \<in> set items" by (auto simp: find_Some_iff)
  with assms have eq: "ToNumber (item_buildTime it) = parseFloat (item_buildTime it)" by blast
  from t f have "\<not> jle (ToNumber (item_buildTime it)) (Fin 0)"
    and "buildTime t = parseFloat (item_buildTime it)"
    by (auto simp: expand_order_def Let_def split: if_splits)
  with eq show "\<not> jlt (buildTime t) (Fin 0)" by (simp add: not_jle_not_jlt)
qed

section \<open>The properties\<close>

text \<open>
  C1. For every task the allocator processes, in every state: either the task is placed,
  and then on the machine \<open>b\<close> that is allowed for the task, present in the pool, of
  smallest candidate finish time (cursor plus build time) and first in the stored order
  of \<open>allowedMachines\<close> among the machines of that finish time; or it overflows, which
  happens when that machine's finish time exceeds the budget or its name is empty, or
  when no allowed machine of the pool has a finish time below \<open>+Infinity\<close>.
\<close>

theorem allocator_picks_first_earliest:
  "(\<exists>b m. first_earliest (schedule st) t b \<and> map_of (schedule st) b = Some m
        \<and> allocate_task budget st t =
            (if b \<noteq> [] \<and> jle (candidateFinish (schedule st) t b) budget
             then place st t b m else overflow st t))
   \<or> ((\<forall>n\<in>set (allowedMachines t). n \<in> fst ` set (schedule st) \<longrightarrow>
           \<not> jlt (candidateFinish (schedule st) t n) PInf)
        \<and> allocate_task budget st t = overflow st t)"
  using allocate_task_cases [of budget st t] by blast

theorem allocator_picks_first_earliest_witness:
  "first_earliest (schedule stateB1) secondB ''B''
   \<and> allocate_task (Fin 480) stateB1 secondB
       = place stateB1 secondB ''B'' \<lparr> tasks = [], currentTime = Fin 0 \<rparr>"
proof -
  have cfA: "candidateFinish (schedule stateB1) secondB ''A'' = Fin 200" by code_simp
  have cfB: "candidateFinish (schedule stateB1) secondB ''B'' = Fin 100" by code_simp
  have keys: "fst ` set (schedule stateB1) = {''A'', ''B''}" by (auto simp: stateB1_def)
  have am: "allowedMachines secondB = [''A''] @ ''B'' # []" by (simp add: secondB_def firstB_def)
  have fe: "first_earliest (schedule stateB1) secondB ''B''"
    unfolding first_earliest_def
    by (rule exI [of _ "[''A'']"], rule exI [of _ "[]"]) (simp add: am cfA cfB keys)
  have mB: "map_of (schedule stateB1) ''B'' = Some \<lparr> tasks = [], currentTime = Fin 0 \<rparr>"
    by (simp add: stateB1_def)
  from allocator_picks_first_earliest [of stateB1 secondB "Fin 480"]
  have "allocate_task (Fin 480) stateB1 secondB
          = place stateB1 secondB ''B'' \<lparr> tasks = [], currentTime = Fin 0 \<rparr>"
  proof (elim disjE exE conjE)
    fix b m
    assume h: "first_earliest (schedule stateB1) secondB b"
      "map_of (schedule stateB1) b = Some m"
      "allocate_task (Fin 480) stateB1 secondB =
        (if b \<noteq> [] \<and> jle (candidateFinish (schedule stateB1) secondB b) (Fin 480)
         then place stateB1 secondB b m else overflow stateB1 secondB)"
    from first_earliest_unique [OF h(1) fe] have b: "b = ''B''" .
    with h(2) mB have "m = \<lparr> tasks = [], currentTime = Fin 0 \<rparr>" by simp
    with h(3) b cfB show ?thesis by simp
  next
    assume "\<forall>n\<in>set (allowedMachines secondB). n \<in> fst ` set (schedule stateB1) \<longrightarrow>
        \<not> jlt (candidateFinish (schedule stateB1) secondB n) PInf"
    then have "\<not> jlt (candidateFinish (schedule stateB1) secondB ''B'') PInf"
      by (simp add: am keys)
    then show ?thesis by (simp add: cfB)
  qed
  with fe show ?thesis ..
qed



text \<open>
  C3, amended. In every timeline of a result the tasks run back to back from minute 0 up
  to the machine's cursor: each starts at the end of the one before it and ends its build
  time later. Every assigned task ends within \<open>totalWorkMinutes\<close>; the cursor is within
  \<open>totalWorkMinutes\<close> when the machine holds a task or \<open>totalWorkMinutes\<close> is not
  negative. Start times never decrease provided no expanded task has a negative build
  time, which is so whenever the guard's comparison and \<^verbatim>\<open>parseFloat\<close> read every item's
  build time alike.
\<close>

theorem timelines_back_to_back:
  assumes "scheduleData (Some orders) items machines st = Some r"
    and "(n, tln) \<in> set (schedule r)"
  shows "back_to_back (Fin 0) (tasks tln) (currentTime tln)
         \<and> (\<forall>s\<in>set (tasks tln). jle (endTime s) (totalWorkMinutes st))
         \<and> (tasks tln \<noteq> [] \<or> jle (Fin 0) (totalWorkMinutes st)
              \<longrightarrow> jle (currentTime tln) (totalWorkMinutes st))
         \<and> ((\<forall>t\<in>set (allTasks orders items). \<not> jlt (buildTime t) (Fin 0))
              \<longrightarrow> sorted_wrt (\<lambda>a b. jle (startTime a) (startTime b)) (tasks tln))
         \<and> ((\<forall>it\<in>set items. ToNumber (item_buildTime it) = parseFloat (item_buildTime it))
              \<longrightarrow> sorted_wrt (\<lambda>a b. jle (startTime a) (startTime b)) (tasks tln))"
proof -
  let ?B = "totalWorkMinutes st"
  from assms(1) have r: "r = allocate ?B (init_timelines machines)
      (sort_tasks (allTasks orders items))"
    by (auto elim: scheduleData_Some)
  have "\<forall>(n, tln)\<in>set (init_timelines machines). within_budget ?B tln"
    using init_timelines_values [of machines] by (auto simp: no_timeline_def within_budget_def)
  from allocate_within_budget [OF this] assms(2)
  have wb: "within_budget ?B tln" unfolding r by blast
  then have b2b: "back_to_back (Fin 0) (tasks tln) (currentTime tln)"
    and ends: "\<forall>s\<in>set (tasks tln). jle (endTime s) ?B"
    by (simp_all add: within_budget_def)
  have cur: "jle (currentTime tln) ?B" if "tasks tln \<noteq> [] \<or> jle (Fin 0) ?B"
  proof (cases "tasks tln = []")
    case True
    with that back_to_back_cursor [OF b2b] show ?thesis by simp
  next
    case False
    with back_to_back_cursor [OF b2b] have "currentTime tln = endTime (last (tasks tln))" by simp
    with ends False show ?thesis by simp
  qed
  have asc: "sorted_wrt (\<lambda>a b. jle (startTime a) (startTime b)) (tasks tln)"
    if h: "\<forall>t\<in>set (allTasks orders items). \<not> jlt (buildTime t) (Fin 0)"
  proof -
    have 1: "\<forall>(n, tln)\<in>set (init_timelines machines). ascending tln"
      using init_timelines_values [of machines]
      by (auto simp: no_timeline_def ascending_def starts_ascend_def)
    have 2: "\<forall>t\<in>set (sort_tasks (allTasks orders items)). \<not> jlt (buildTime t) (Fin 0)"
      using h by (simp add: set_sort_tasks)
    from allocate_ascending [OF 1 2] assms(2) have "ascending tln" unfolding r by blast
    then show ?thesis by (simp add: ascending_def starts_ascend_def)
  qed
  have asc': "sorted_wrt (\<lambda>a b. jle (startTime a) (startTime b)) (tasks tln)"
    if "\<forall>it\<in>set items. ToNumber (item_buildTime it) = parseFloat (item_buildTime it)"
    using asc plain_build_times [OF that] by blast
  from b2b ends cur asc asc' show ?thesis by blast
qed

theorem timelines_back_to_back_witness:
  "scheduleData (Some ordersA) itemsA machinesA settingsA = Some resultA
   \<and> back_to_back (Fin 0) (tasks lineA) (currentTime lineA)
   \<and> list_all (\<lambda>s. jle (endTime s) (Fin 480)) (tasks lineA)
   \<and> jle (currentTime lineA) (Fin 480)
   \<and> sorted_wrt (\<lambda>a b. jle (startTime a) (startTime b)) (tasks lineA)"
proof -
  have mem: "(''Laser Cutter'', lineA) \<in> set (schedule resultA)" by (simp add: resultA_def)
  have ne: "tasks lineA \<noteq> []" by code_simp
  have nonneg: "\<forall>t\<in>set (allTasks ordersA itemsA). \<not> jlt (buildTime t) (Fin 0)" by code_simp
  from timelines_back_to_back [OF runA mem] ne nonneg show ?thesis
    by (simp add: runA budgetA list_all_iff)
qed

text \<open>
  C3 as claimed fails twice. An item whose build time is the string \<^verbatim>\<open>-5abc\<close> passes the
  guard of the expander (the comparison reads it as \<open>NaN\<close>), \<^verbatim>\<open>parseFloat\<close> reads \<open>-5\<close>,
  and the second unit starts at minute \<open>-5\<close>, before the first. With \<open>workHours = -1\<close> the
  budget is \<open>-60\<close> minutes, nothing is assigned, and the idle machine's cursor \<open>0\<close> lies
  above the budget.
\<close>

theorem timelines_claim_fails:
  "map_option slots (scheduleData (Some ordersN) itemsN machinesA settingsA)
     = Some [(''Laser Cutter'', [(Fin 0, Fin (- 5)), (Fin (- 5), Fin (- 10))])]
   \<and> \<not> jle (Fin 0) (Fin (- 5))
   \<and> map_option (map (\<lambda>(n, tln). currentTime tln) \<circ> schedule)
        (scheduleData (Some ordersA) itemsA machinesA settingsN) = Some [Fin 0]
   \<and> totalWorkMinutes settingsN = Fin (- 60)
   \<and> \<not> jle (Fin 0) (Fin (- 60))
   \<and> (case scheduleData (Some ordersN) itemsN machinesA settingsA of
         None \<Rightarrow> False
       | Some r \<Rightarrow>
           list_ex (\<lambda>(n, tln). \<not> sorted_wrt (\<lambda>a b. jle (startTime a) (startTime b)) (tasks tln))
             (schedule r))
   \<and> (case scheduleData (Some ordersA) itemsA machinesA settingsN of
         None \<Rightarrow> False
       | Some r \<Rightarrow>
           list_ex (\<lambda>(n, tln). \<not> jle (currentTime tln) (totalWorkMinutes settingsN))
             (schedule r))"
  by code_simp



text \<open>
  C5. For every sequence of tasks none of whose profit per minute is \<open>NaN\<close> (where the
  comparator is a consistent ordering), the ranked sequence is in descending order of
  profit per minute, holds the same tasks, and keeps the tasks of each profit per minute
  in the order in which they were expanded.
\<close>

theorem ranking_stable_descending:
  assumes "\<forall>t\<in>set ts. profitPerMinute t \<noteq> NaN"
  shows "descending (sort_tasks ts)
         \<and> (\<forall>k. filter (\<lambda>t. profitPerMinute t = k) (sort_tasks ts)
                  = filter (\<lambda>t. profitPerMinute t = k) ts)
         \<and> mset (sort_tasks ts) = mset ts"
  using assms by (simp add: descending_sort_tasks stable_sort_tasks mset_sort_tasks)

theorem ranking_stable_descending_witness:
  "map (\<lambda>t. (task_id t, profitPerMinute t)) (allTasks ordersC itemsC)
     = [(''item-1-0'', Fin (1 / 6)), (''item-1-1'', Fin (1 / 6)), (''item-2-0'', Fin (1 / 2)),
        (''item-2-1'', Fin (1 / 2)), (''item-1-0'', Fin (1 / 6))]
   \<and> descending (sort_tasks (allTasks ordersC itemsC))
   \<and> filter (\<lambda>t. profitPerMinute t = Fin (1 / 6)) (sort_tasks (allTasks ordersC itemsC))
       = filter (\<lambda>t. profitPerMinute t = Fin (1 / 6)) (allTasks ordersC itemsC)
   \<and> map task_id (sort_tasks (allTasks ordersC itemsC))
       = [''item-2-0'', ''item-2-1'', ''item-1-0'', ''item-1-1'', ''item-1-0'']"
proof -
  have h: "\<forall>t\<in>set (allTasks ordersC itemsC). profitPerMinute t \<noteq> NaN" by code_simp
  have a: "map (\<lambda>t. (task_id t, profitPerMinute t)) (allTasks ordersC itemsC)
     = [(''item-1-0'', Fin (1 / 6)), (''item-1-1'', Fin (1 / 6)), (''item-2-0'', Fin (1 / 2)),
        (''item-2-1'', Fin (1 / 2)), (''item-1-0'', Fin (1 / 6))]" by code_simp
  have b: "map task_id (sort_tasks (allTasks ordersC itemsC))
       = [''item-2-0'', ''item-2-1'', ''item-1-0'', ''item-1-1'', ''item-1-0'']" by code_simp
  from ranking_stable_descending [OF h] a b show ?thesis by simp
qed

text \<open>
  C6, amended. With machines named \<open>A\<close> and \<open>B\<close>, one item of 100 minutes allowed on
  both (whatever its price and cost), one order of five units and an eight hour day (480
  minutes), the units alternate: \<open>A\<close> receives three (0-100, 100-200, 200-300) and \<open>B\<close>
  two (0-100, 100-200).
\<close>

theorem scenario_B_allocation:
  assumes "item_buildTime it \<in> {JStr ''100'', JNum (Fin 100)}"
    and "item_allowedMachines it = Some [''A'', ''B'']"
    and "itemId ord = item_id it" and "quantity ord = 5"
    and "machine_name ma = ''A''" and "machine_name mb = ''B''"
    and "workHours st = JNum (Fin 8)"
  shows "map_option slots (scheduleData (Some [ord]) [it] [ma, mb] st)
   = Some [(''A'', [(Fin 0, Fin 100), (Fin 100, Fin 200), (Fin 200, Fin 300)]),
           (''B'', [(Fin 0, Fin 100), (Fin 100, Fin 200)])]"
proof -
  let ?ts = "allTasks [ord] [it]"
  have ts: "\<forall>t\<in>set ?ts. buildTime t = Fin 100 \<and> allowedMachines t = [''A'', ''B'']"
    using assms(2,3) reads_100 [OF assms(1)]
    by (auto simp: allTasks_def expand_order_def Let_def)
  have len: "length ?ts = 5"
    using assms(3,4) reads_100 [OF assms(1)]
    by (simp add: allTasks_def expand_order_def Let_def)
  have 1: "\<forall>t\<in>set (sort_tasks ?ts). buildTime t = Fin 100 \<and> allowedMachines t = [''A'', ''B'']"
    using ts by (simp add: set_sort_tasks)
  have 2: "length (sort_tasks ?ts) = 5" using len by (simp add: length_sort_tasks)
  have 3: "init_timelines [ma, mb]
    = [(''A'', \<lparr> tasks = [], currentTime = Fin 0 \<rparr>), (''B'', \<lparr> tasks = [], currentTime = Fin 0 \<rparr>)]"
    using assms(5,6) by (simp add: init_timelines_def)
  have 4: "totalWorkMinutes st = Fin 480" using assms(7) by (simp add: totalWorkMinutes_def)
  show ?thesis
    by (simp add: scheduleData_def 3 4 five_units_alternate [OF 1 2])
qed

theorem scenario_B_allocation_witness:
  "map_option slots (scheduleData (Some ordersB) itemsB machinesB settingsA)
   = Some [(''A'', [(Fin 0, Fin 100), (Fin 100, Fin 200), (Fin 200, Fin 300)]),
           (''B'', [(Fin 0, Fin 100), (Fin 100, Fin 200)])]"
  unfolding ordersB_def itemsB_def machinesB_def settingsA_def
  by (rule scenario_B_allocation) simp_all

text \<open>C6 as claimed (four units on \<open>A\<close>, the fifth on \<open>B\<close>) is not what the run yields.\<close>

theorem scenario_B_claim_fails:
  "map_option slots (scheduleData (Some ordersB) itemsB machinesB settingsA)
   \<noteq> Some [(''A'', [(Fin 0, Fin 100), (Fin 100, Fin 200), (Fin 200, Fin 300), (Fin 300, Fin 400)]),
           (''B'', [(Fin 0, Fin 100)])]"
  by code_simp

text \<open>
  C7, amended. The budget is \<open>workHours * 60\<close> when \<open>workHours\<close> is truthy, in particular
  \<open>h * 60\<close> for every number \<open>h\<close> other than zero, and \<open>480\<close> when \<open>workHours\<close> is absent
  or otherwise falsy, zero included.
\<close>

theorem budget_from_workHours:
  "totalWorkMinutes st =
     (if truthy (workHours st) then jmul (ToNumber (workHours st)) (Fin 60) else Fin 480)
   \<and> (\<forall>h. workHours st = JNum (Fin h) \<and> h \<noteq> 0 \<longrightarrow> totalWorkMinutes st = Fin (h * 60))"
  by (simp add: totalWorkMinutes_def)

theorem budget_from_workHours_witness:
  "totalWorkMinutes \<lparr> workHours = JNum (Fin 6), workdayStartHour = JNum (Fin 9) \<rparr> = Fin 360
   \<and> totalWorkMinutes \<lparr> workHours = JUndefined, workdayStartHour = JNum (Fin 9) \<rparr> = Fin 480"
  using budget_from_workHours [of "\<lparr> workHours = JNum (Fin 6), workdayStartHour = JNum (Fin 9) \<rparr>"]
    budget_from_workHours [of "\<lparr> workHours = JUndefined, workdayStartHour = JNum (Fin 9) \<rparr>"]
  by simp

text \<open>C7 as claimed fails at \<open>workHours = 0\<close>: the budget is 480 minutes, not \<open>0 * 60\<close>.\<close>

theorem budget_at_zero_hours:
  "totalWorkMinutes \<lparr> workHours = JNum (Fin 0), workdayStartHour = JNum (Fin 9) \<rparr> = Fin 480
   \<and> jmul (ToNumber (JNum (Fin 0))) (Fin 60) = Fin 0
   \<and> totalWorkMinutes \<lparr> workHours = JNum (Fin 0), workdayStartHour = JNum (Fin 9) \<rparr>
       \<noteq> jmul (ToNumber (JNum (Fin 0))) (Fin 60)"
  by (simp add: totalWorkMinutes_def)



text \<open>
  C9, amended. The identities of the tasks of an order are its \<open>itemId\<close>, a dash and the
  unit index in decimal, a function of the order alone; they are pairwise distinct within
  the order, and the tasks of two orders for different items never share an identity.
\<close>

theorem task_ids_from_item_and_index:
  "map task_id (expand_order items ord) =
     (if expand_order items ord = [] then []
      else map (\<lambda>i. itemId ord @ ''-'' @ dec i) [0 ..< quantity ord])
   \<and> distinct (map task_id (expand_order items ord))
   \<and> (itemId ord \<noteq> itemId ord' \<longrightarrow>
        set (map task_id (expand_order items ord))
          \<inter> set (map task_id (expand_order items' ord')) = {})"
proof -
  have ids: "map task_id (expand_order its od) =
     (if expand_order its od = [] then []
      else map (\<lambda>i. itemId od @ ''-'' @ dec i) [0 ..< quantity od])" for its od
    by (auto simp: expand_order_def Let_def comp_def split: option.splits)
  have "distinct (map (\<lambda>i. itemId ord @ ''-'' @ dec i) [0 ..< quantity ord])"
    by (auto simp: distinct_map inj_on_def dest: dec_inj)
  then have d: "distinct (map task_id (expand_order items ord))"
    by (simp add: ids)
  have "set (map task_id (expand_order items ord))
          \<inter> set (map task_id (expand_order items' ord')) = {}"
    if "itemId ord \<noteq> itemId ord'"
    unfolding ids using that by (auto dest: task_id_inj)
  with ids d show ?thesis by blast
qed

theorem task_ids_from_item_and_index_witness:
  "map task_id (expand_order itemsC (ordersC ! 0)) = [''item-1-0'', ''item-1-1'']
   \<and> map task_id (expand_order itemsC (ordersC ! 1)) = [''item-2-0'', ''item-2-1'']
   \<and> distinct (map task_id (expand_order itemsC (ordersC ! 0)))
   \<and> set (map task_id (expand_order itemsC (ordersC ! 0)))
       \<inter> set (map task_id (expand_order itemsC (ordersC ! 1))) = {}"
proof -
  have ne: "itemId (ordersC ! 0) \<noteq> itemId (ordersC ! 1)" by (simp add: ordersC_def)
  have a: "map task_id (expand_order itemsC (ordersC ! 0)) = [''item-1-0'', ''item-1-1'']"
    by code_simp
  have b: "map task_id (expand_order itemsC (ordersC ! 1)) = [''item-2-0'', ''item-2-1'']"
    by code_simp
  from task_ids_from_item_and_index [of itemsC "ordersC ! 0" "ordersC ! 1" itemsC] ne
  have "distinct (map task_id (expand_order itemsC (ordersC ! 0)))
    \<and> set (map task_id (expand_order itemsC (ordersC ! 0)))
       \<inter> set (map task_id (expand_order itemsC (ordersC ! 1))) = {}"
    by blast
  with a b show ?thesis by blast
qed

text \<open>C9 as claimed fails for two distinct orders of one item: their first units share
  the identity \<^verbatim>\<open>item-1-0\<close>.\<close>

theorem task_ids_repeat_across_orders:
  "order_id (ordersC ! 0) \<noteq> order_id (ordersC ! 2)
   \<and> task_id (expand_order itemsC (ordersC ! 0) ! 0) = ''item-1-0''
   \<and> task_id (expand_order itemsC (ordersC ! 2) ! 0) = ''item-1-0''
   \<and> \<not> distinct (map task_id (allTasks ordersC itemsC))"
  by code_simp



end

